theory Spec2Isabelle
  imports Main
begin

section \<open>The CSS selector builder of src/06-objects-tasks.js\<close>

text \<open>
  The builder is written in JavaScript with mutable objects: every \<open>Selector\<close> object is
  changed in place by its methods, and the one facade object \<open>cssSelectorBuilder\<close> keeps
  two shared arrays, \<open>selectors\<close> (references to the Selector objects it created) and
  \<open>splitters\<close> (the combinator arguments it was given). Since a Selector stays reachable
  from the facade's array while the caller goes on calling methods on it, the model has an
  explicit store: Selector objects live in a heap and are named by their address.
  A \<open>throw\<close> is a value \<open>Inl e\<close>; whatever the method wrote before throwing stays
  written, so every operation returns its result together with the state it leaves.
\<close>

subsection \<open>Values\<close>

text \<open>The six method names that \<open>callMeth\<close> receives as \<open>fName\<close>.\<close>

datatype fName = fn_element | fn_id | fn_class | fn_attr | fn_pseudoClass | fn_pseudoElement

text \<open>
  What a property of \<open>unicCall\<close> can hold: \<open>unicCall\<close> is created with the keys
  \<open>id\<close>, \<open>pseudoElement\<close> and \<open>element\<close> only, so reading any other key gives
  \<open>undefined\<close>, and \<open>undefined + 1\<close> is \<open>NaN\<close>.
\<close>

datatype jsnum = Undefined | Num nat | NaN

text \<open>
  The errors: the two \<open>throw new Error(...)\<close> of the source (told apart by their
  message), and the TypeError that the language itself raises (reduce of an empty array
  with no initial value, a property access on \<open>undefined\<close>).
\<close>

datatype error =
    DuplicateError  \<comment> \<open>"Element, id and pseudo-element should not occur more then one time inside the selector"\<close>
  | OrderError      \<comment> \<open>"Selector parts should be arranged in the following order: ..."\<close>
  | TypeError

text \<open>A reference to the facade object; there is one such object in the module.\<close>

datatype facade = CssSelectorBuilder

record selector =
  str :: string
  last_sel :: "fName option"          \<comment> \<open>the field \<open>last\<close>; \<open>None\<close> is \<open>null\<close>\<close>
  unicCall :: "fName \<Rightarrow> jsnum"
  prototype :: "facade option"        \<comment> \<open>\<open>None\<close>: the property is not set\<close>

text \<open>A value that a builder call returns: a Selector object (by address) or the facade.\<close>

datatype expr = Sel nat | Builder

record world =
  heap :: "selector list"      \<comment> \<open>the Selector objects allocated so far; the address is the index\<close>
  selectors :: "nat list"      \<comment> \<open>\<open>cssSelectorBuilder.selectors\<close>\<close>
  splitters :: "string list"   \<comment> \<open>\<open>cssSelectorBuilder.splitters\<close>\<close>

subsection \<open>JavaScript primitives\<close>

text \<open>
  \<open>x += 1\<close> on such a value. The numbers that occur are call counts, which a double
  holds exactly (no object receives \<open>2^53\<close> calls), so they are natural numbers here.
\<close>

fun js_add1 :: "jsnum \<Rightarrow> jsnum" where
  "js_add1 Undefined = NaN"
| "js_add1 NaN = NaN"
| "js_add1 (Num n) = Num (n + 1)"

text \<open>\<open>x > 1\<close>: false for \<open>NaN\<close>.\<close>

fun js_gt1 :: "jsnum \<Rightarrow> bool" where
  "js_gt1 (Num n) = (1 < n)"
| "js_gt1 _ = False"

text \<open>\<open>Array.prototype.indexOf\<close>: the first position of the value, \<open>-1\<close> when absent.\<close>

fun indexOf :: "'a list \<Rightarrow> 'a \<Rightarrow> int" where
  "indexOf [] x = - 1"
| "indexOf (y # ys) x =
     (if y = x then 0 else (let i = indexOf ys x in if i < 0 then - 1 else i + 1))"

text \<open>\<open>addBefore || ''\<close>: an argument that was not passed is \<open>undefined\<close>.\<close>

fun or_empty :: "string option \<Rightarrow> string" where
  "or_empty None = []"
| "or_empty (Some s) = s"

text \<open>\<open>if (this.splitters[i])\<close>: an index out of range reads \<open>undefined\<close>, and the
  empty string is falsy as well.\<close>

definition truthy_at :: "string list \<Rightarrow> nat \<Rightarrow> bool" where
  "truthy_at xs i = (i < length xs \<and> xs ! i \<noteq> [])"

text \<open>\<open>.reduce((a, b) => (a + b))\<close> with no initial value: a TypeError on the empty
  array, the left fold from the first element otherwise.\<close>

fun reduce_concat :: "string list \<Rightarrow> error + string" where
  "reduce_concat [] = Inl TypeError"
| "reduce_concat (x # xs) = Inr (foldl (@) x xs)"

subsection \<open>The Selector object\<close>

definition orderRule :: "fName option list" where
  "orderRule = [Some fn_element, Some fn_id, Some fn_class, Some fn_attr,
                Some fn_pseudoClass, Some fn_pseudoElement]"

text \<open>The object that \<open>Selector()\<close> returns.\<close>

definition Selector :: selector where
  "Selector = \<lparr> str = [], last_sel = None,
     unicCall = (\<lambda>k. Undefined)(fn_id := Num 0, fn_pseudoElement := Num 0, fn_element := Num 0),
     prototype = None \<rparr>"

definition checkCall :: "fName \<Rightarrow> selector \<Rightarrow> (error + unit) \<times> selector" where
  "checkCall fName s =
     (let s1 = s\<lparr>unicCall := (unicCall s)(fName := js_add1 (unicCall s fName))\<rparr>
      in if js_gt1 (unicCall s1 fName) then (Inl DuplicateError, s1) else (Inr (), s1))"

definition checkOrder :: "fName \<Rightarrow> selector \<Rightarrow> (error + unit) \<times> selector" where
  "checkOrder fName s =
     (let isOrdered = (indexOf orderRule (last_sel s) \<le> indexOf orderRule (Some fName));
          s1 = s\<lparr>last_sel := Some fName\<rparr>
      in if \<not> isOrdered then (Inl OrderError, s1) else (Inr (), s1))"

definition callMeth ::
  "string \<Rightarrow> fName \<Rightarrow> string option \<Rightarrow> string option \<Rightarrow> selector \<Rightarrow> (error + unit) \<times> selector"
where
  "callMeth v fName addBefore addAfter s =
     (case checkCall fName s of
        (Inl e, s1) \<Rightarrow> (Inl e, s1)
      | (Inr _, s1) \<Rightarrow>
          (case checkOrder fName s1 of
             (Inl e, s2) \<Rightarrow> (Inl e, s2)
           | (Inr _, s2) \<Rightarrow>
               (let s3 = s2\<lparr>str := str s2 @ or_empty addBefore\<rparr>;
                    s4 = s3\<lparr>str := str s3 @ v\<rparr>;
                    s5 = s4\<lparr>str := str s4 @ or_empty addAfter\<rparr>
                in (Inr (), s5))))"

definition Selector_element :: "string \<Rightarrow> selector \<Rightarrow> (error + unit) \<times> selector" where
  "Selector_element v = callMeth v fn_element None None"

definition Selector_id :: "string \<Rightarrow> selector \<Rightarrow> (error + unit) \<times> selector" where
  "Selector_id v = callMeth v fn_id (Some ''#'') None"

definition Selector_class :: "string \<Rightarrow> selector \<Rightarrow> (error + unit) \<times> selector" where
  "Selector_class v = callMeth v fn_class (Some ''.'') None"

definition Selector_attr :: "string \<Rightarrow> selector \<Rightarrow> (error + unit) \<times> selector" where
  "Selector_attr v = callMeth v fn_attr (Some ''['') (Some '']'')"

definition Selector_pseudoClass :: "string \<Rightarrow> selector \<Rightarrow> (error + unit) \<times> selector" where
  "Selector_pseudoClass v = callMeth v fn_pseudoClass (Some '':'') None"

definition Selector_pseudoElement :: "string \<Rightarrow> selector \<Rightarrow> (error + unit) \<times> selector" where
  "Selector_pseudoElement v = callMeth v fn_pseudoElement (Some ''::'') None"

text \<open>\<open>n[f](v)\<close>: the method of the Selector object named by \<open>f\<close>.\<close>

fun invoke :: "fName \<Rightarrow> string \<Rightarrow> selector \<Rightarrow> (error + unit) \<times> selector" where
  "invoke fn_element v = Selector_element v"
| "invoke fn_id v = Selector_id v"
| "invoke fn_class v = Selector_class v"
| "invoke fn_attr v = Selector_attr v"
| "invoke fn_pseudoClass v = Selector_pseudoClass v"
| "invoke fn_pseudoElement v = Selector_pseudoElement v"

text \<open>
  A fragment method called on the Selector object at address \<open>a\<close>: the object is
  changed in the heap whether the method throws or not, and the method returns
  \<open>this\<close>. An address that names no object cannot arise from the builder; calling a
  method there is the TypeError of a call on \<open>undefined\<close>.
\<close>

definition on_sel ::
  "nat \<Rightarrow> (selector \<Rightarrow> (error + unit) \<times> selector) \<Rightarrow> world \<Rightarrow> (error + expr) \<times> world"
where
  "on_sel a m w =
     (if a < length (heap w) then
        (case m (heap w ! a) of
           (Inl e, s1) \<Rightarrow> (Inl e, w\<lparr>heap := (heap w)[a := s1]\<rparr>)
         | (Inr _, s1) \<Rightarrow> (Inr (Sel a), w\<lparr>heap := (heap w)[a := s1]\<rparr>))
      else (Inl TypeError, w))"

text \<open>
  \<open>Selector.stringify\<close>. The last assignment goes through \<open>this.prototype\<close> to the
  facade and replaces its \<open>selectors\<close> array by a new empty one; when \<open>prototype\<close>
  is not set, that assignment throws after the two fields were reset.
\<close>

definition Selector_stringify :: "nat \<Rightarrow> world \<Rightarrow> (error + string) \<times> world" where
  "Selector_stringify a w =
     (if a < length (heap w) then
        (let s = heap w ! a;
             res = str s;
             w1 = w\<lparr>heap := (heap w)[a := s\<lparr>str := [], last_sel := None\<rparr>]\<rparr>
         in case prototype s of
              None \<Rightarrow> (Inl TypeError, w1)
            | Some CssSelectorBuilder \<Rightarrow> (Inr res, w1\<lparr>selectors := []\<rparr>))
      else (Inl TypeError, w))"

subsection \<open>The facade cssSelectorBuilder\<close>

definition setNewSelector :: "string \<Rightarrow> fName \<Rightarrow> world \<Rightarrow> (error + expr) \<times> world" where
  "setNewSelector v f w =
     (let a = length (heap w);
          w1 = w\<lparr>heap := heap w @ [Selector]\<rparr>
      in case on_sel a (invoke f v) w1 of
           (Inl e, w2) \<Rightarrow> (Inl e, w2)
         | (Inr _, w2) \<Rightarrow>
             (let w3 = w2\<lparr>selectors := selectors w2 @ [a]\<rparr>;
                  w4 = w3\<lparr>heap := (heap w3)[a := (heap w3 ! a)\<lparr>prototype := Some CssSelectorBuilder\<rparr>]\<rparr>
              in (Inr (Sel a), w4)))"

definition cssSelectorBuilder_element :: "string \<Rightarrow> world \<Rightarrow> (error + expr) \<times> world" where
  "cssSelectorBuilder_element v = setNewSelector v fn_element"

definition cssSelectorBuilder_id :: "string \<Rightarrow> world \<Rightarrow> (error + expr) \<times> world" where
  "cssSelectorBuilder_id v = setNewSelector v fn_id"

definition cssSelectorBuilder_class :: "string \<Rightarrow> world \<Rightarrow> (error + expr) \<times> world" where
  "cssSelectorBuilder_class v = setNewSelector v fn_class"

definition cssSelectorBuilder_attr :: "string \<Rightarrow> world \<Rightarrow> (error + expr) \<times> world" where
  "cssSelectorBuilder_attr v = setNewSelector v fn_attr"

definition cssSelectorBuilder_pseudoClass :: "string \<Rightarrow> world \<Rightarrow> (error + expr) \<times> world" where
  "cssSelectorBuilder_pseudoClass v = setNewSelector v fn_pseudoClass"

definition cssSelectorBuilder_pseudoElement :: "string \<Rightarrow> world \<Rightarrow> (error + expr) \<times> world" where
  "cssSelectorBuilder_pseudoElement v = setNewSelector v fn_pseudoElement"

text \<open>\<open>combine(a, b)\<close>: \<open>unshift\<close> puts \<open>b\<close> at the front of \<open>splitters\<close>; the
  facade itself is returned.\<close>

definition combine :: "expr \<Rightarrow> string \<Rightarrow> world \<Rightarrow> (error + expr) \<times> world" where
  "combine a b w = (Inr Builder, w\<lparr>splitters := b # splitters w\<rparr>)"

text \<open>A call \<open>combine(x, op, y)\<close>: the function declares two parameters, so the third
  argument is bound to nothing.\<close>

definition combine3 :: "expr \<Rightarrow> string \<Rightarrow> expr \<Rightarrow> world \<Rightarrow> (error + expr) \<times> world" where
  "combine3 a b c = combine a b"

text \<open>
  The callback of \<open>this.selectors.map\<close>, run over the array that \<open>selectors\<close> held
  when \<open>map\<close> was called (the assignment inside \<open>Selector.stringify\<close> rebinds the
  facade's property to another array and leaves the iterated one alone), with the index
  \<open>i\<close> and the state threaded from one element to the next.
\<close>

fun map_selectors :: "nat list \<Rightarrow> nat \<Rightarrow> world \<Rightarrow> (error + string list) \<times> world" where
  "map_selectors [] i w = (Inr [], w)"
| "map_selectors (sel # sels) i w =
     (case Selector_stringify sel w of
        (Inl e, w1) \<Rightarrow> (Inl e, w1)
      | (Inr r, w1) \<Rightarrow>
          (let r1 = (if truthy_at (splitters w1) i
                     then r @ '' '' @ splitters w1 ! i @ '' '' else r)
           in case map_selectors sels (i + 1) w1 of
                (Inl e, w2) \<Rightarrow> (Inl e, w2)
              | (Inr rs, w2) \<Rightarrow> (Inr (r1 # rs), w2)))"

definition cssSelectorBuilder_stringify :: "world \<Rightarrow> (error + string) \<times> world" where
  "cssSelectorBuilder_stringify w =
     (case map_selectors (selectors w) 0 w of
        (Inl e, w1) \<Rightarrow> (Inl e, w1)
      | (Inr rs, w1) \<Rightarrow>
          (case reduce_concat rs of
             Inl e \<Rightarrow> (Inl e, w1)
           | Inr res \<Rightarrow> (Inr res, w1\<lparr>selectors := [], splitters := []\<rparr>)))"

subsection \<open>Method calls on a returned value, and scripts\<close>

text \<open>\<open>x.f(v)\<close> and \<open>x.stringify()\<close>, where \<open>x\<close> is whatever an earlier call
  returned: the facade or a Selector object.\<close>

fun call :: "expr \<Rightarrow> fName \<Rightarrow> string \<Rightarrow> world \<Rightarrow> (error + expr) \<times> world" where
  "call Builder fn_element v w = cssSelectorBuilder_element v w"
| "call Builder fn_id v w = cssSelectorBuilder_id v w"
| "call Builder fn_class v w = cssSelectorBuilder_class v w"
| "call Builder fn_attr v w = cssSelectorBuilder_attr v w"
| "call Builder fn_pseudoClass v w = cssSelectorBuilder_pseudoClass v w"
| "call Builder fn_pseudoElement v w = cssSelectorBuilder_pseudoElement v w"
| "call (Sel a) f v w = on_sel a (invoke f v) w"

fun stringify :: "expr \<Rightarrow> world \<Rightarrow> (error + string) \<times> world" where
  "stringify Builder w = cssSelectorBuilder_stringify w"
| "stringify (Sel a) w = Selector_stringify a w"

text \<open>Two statements in sequence: an exception that nobody catches ends the script.\<close>

definition and_then ::
  "(world \<Rightarrow> (error + 'a) \<times> world) \<Rightarrow> ('a \<Rightarrow> world \<Rightarrow> (error + 'b) \<times> world)
     \<Rightarrow> world \<Rightarrow> (error + 'b) \<times> world"
where
  "and_then m f w = (case m w of (Inl e, w1) \<Rightarrow> (Inl e, w1) | (Inr x, w1) \<Rightarrow> f x w1)"

text \<open>A chain \<open>x.f1(v1).f2(v2)...\<close> of fragment calls.\<close>

fun chain :: "expr \<Rightarrow> (fName \<times> string) list \<Rightarrow> world \<Rightarrow> (error + expr) \<times> world" where
  "chain x [] w = (Inr x, w)"
| "chain x ((f, v) # fs) w =
     (case call x f v w of (Inl e, w1) \<Rightarrow> (Inl e, w1) | (Inr y, w1) \<Rightarrow> chain y fs w1)"

text \<open>The state of the module when it has just been loaded.\<close>

definition init_world :: world where
  "init_world = \<lparr> heap = [], selectors = [], splitters = [] \<rparr>"

text \<open>
  What a client can do with the exported facade, one statement at a time: call a fragment
  method on a value it holds, call \<open>combine\<close>, call \<open>stringify\<close>. A statement that
  throws leaves the state as the throw found it (the client catches the exception and goes
  on), so a list of statements takes the module from one state to another whatever the
  statements return. The worlds \<open>run ops init_world\<close> are the states the module can be in.
\<close>

datatype op = Call expr fName string | Combine expr string expr | Stringify expr

fun step :: "op \<Rightarrow> world \<Rightarrow> world" where
  "step (Call x f v) w = snd (call x f v w)"
| "step (Combine a b c) w = snd (combine3 a b c w)"
| "step (Stringify x) w = snd (stringify x w)"

fun run :: "op list \<Rightarrow> world \<Rightarrow> world" where
  "run [] w = w"
| "run (p # ps) w = run ps (step p w)"

subsection \<open>The specification's vocabulary\<close>

text \<open>
  The fragment kinds of the specification are the six method names. The canonical order
  \<open>element < id < class < attribute < pseudoClass < pseudoElement\<close>, the kinds that may
  occur once only, and the text that surrounds a fragment, as the specification states them.
\<close>

fun spec_index :: "fName \<Rightarrow> nat" where
  "spec_index fn_element = 0"
| "spec_index fn_id = 1"
| "spec_index fn_class = 2"
| "spec_index fn_attr = 3"
| "spec_index fn_pseudoClass = 4"
| "spec_index fn_pseudoElement = 5"

fun spec_singleton :: "fName \<Rightarrow> bool" where
  "spec_singleton fn_element = True"
| "spec_singleton fn_id = True"
| "spec_singleton fn_pseudoElement = True"
| "spec_singleton _ = False"

fun spec_prefix :: "fName \<Rightarrow> string" where
  "spec_prefix fn_element = []"
| "spec_prefix fn_id = ''#''"
| "spec_prefix fn_class = ''.''"
| "spec_prefix fn_attr = ''[''"
| "spec_prefix fn_pseudoClass = '':''"
| "spec_prefix fn_pseudoElement = ''::''"

fun spec_suffix :: "fName \<Rightarrow> string" where
  "spec_suffix fn_attr = '']''"
| "spec_suffix _ = []"

text \<open>The concatenation, in order and with no separator, of prefix, text and suffix.\<close>

fun spec_render :: "(fName \<times> string) list \<Rightarrow> string" where
  "spec_render [] = []"
| "spec_render ((k, v) # fs) = spec_prefix k @ v @ spec_suffix k @ spec_render fs"

text \<open>A fragment sequence that respects the canonical order and the cardinality rule.\<close>

definition spec_valid :: "(fName \<times> string) list \<Rightarrow> bool" where
  "spec_valid fs =
     (sorted (map (\<lambda>p. spec_index (fst p)) fs) \<and> distinct (filter spec_singleton (map fst fs)))"

subsection \<open>Invariants of the reachable states\<close>

text \<open>
  Every Selector object that the facade has handed out has its \<open>prototype\<close> set, and
  its \<open>unicCall\<close> holds a number exactly under the three keys it was created with.
\<close>

fun holds_number :: "jsnum \<Rightarrow> bool" where
  "holds_number (Num n) = True"
| "holds_number _ = False"

definition obj_ok :: "selector \<Rightarrow> bool" where
  "obj_ok s = (prototype s = Some CssSelectorBuilder \<and> (\<forall>k. holds_number (unicCall s k) = spec_singleton k))"

definition world_ok :: "world \<Rightarrow> bool" where
  "world_ok w = (\<forall>a < length (heap w). obj_ok (heap w ! a))"

text \<open>Objects are never freed and the call counts never go down.\<close>

definition obj_le :: "selector \<Rightarrow> selector \<Rightarrow> bool" where
  "obj_le s t = (\<forall>k n. unicCall s k = Num n \<longrightarrow> (\<exists>m\<ge>n. unicCall t k = Num m))"

definition world_le :: "world \<Rightarrow> world \<Rightarrow> bool" where
  "world_le w u = (length (heap w) \<le> length (heap u) \<and> (\<forall>a < length (heap w). obj_le (heap w ! a) (heap u ! a)))"

subsection \<open>Scripts of the scenarios\<close>

text \<open>
  The nested \<open>combine\<close> example of the source's comment, with the four compounds built
  first. The descendant combinator is the string of one space, as the example passes it.
\<close>

definition scenario_combine :: "world \<Rightarrow> (error + string) \<times> world" where
  "scenario_combine =
     and_then (chain Builder [(fn_element, ''div''), (fn_id, ''main''),
                              (fn_class, ''container''), (fn_class, ''draggable'')]) (\<lambda>A.
     and_then (chain Builder [(fn_element, ''table''), (fn_id, ''data'')]) (\<lambda>B.
     and_then (chain Builder [(fn_element, ''tr''), (fn_pseudoClass, ''nth-of-type(even)'')]) (\<lambda>C.
     and_then (chain Builder [(fn_element, ''td''), (fn_pseudoClass, ''nth-of-type(even)'')]) (\<lambda>D.
     and_then (combine3 C '' '' D) (\<lambda>E1.
     and_then (combine3 B ''~'' E1) (\<lambda>E2.
     and_then (combine3 A ''+'' E2) (\<lambda>E3.
     stringify E3)))))))"

text \<open>
  \<open>const x = element('a'); const y = element('b'); combine(y, '>', x).stringify()\<close>:
  the operands are passed in the order opposite to that of their creation.
\<close>

definition scenario_swapped :: "world \<Rightarrow> (error + string) \<times> world" where
  "scenario_swapped =
     and_then (chain Builder [(fn_element, ''a'')]) (\<lambda>x.
     and_then (chain Builder [(fn_element, ''b'')]) (\<lambda>y.
     and_then (combine3 y ''>'' x) (\<lambda>e.
     stringify e)))"

text \<open>The state after \<open>const c = class('a')\<close> in the freshly loaded module; \<open>c\<close> is
  the object at address 0.\<close>

definition after_class_a :: world where
  "after_class_a = snd (call Builder fn_class ''a'' init_world)"

text \<open>The state after \<open>const d = element('a')\<close> in the freshly loaded module.\<close>

definition after_element_a :: world where
  "after_element_a = snd (call Builder fn_element ''a'' init_world)"

text \<open>
  \<open>const e = combine(element('a'), '+', element('b')); e.stringify(); e.stringify()\<close>:
  the results of the two \<open>stringify\<close> calls.
\<close>

definition scenario_twice :: "world \<Rightarrow> (error + string) \<times> (error + string)" where
  "scenario_twice w =
     (case chain Builder [(fn_element, ''a'')] w of (ra, w1) \<Rightarrow>
      case chain Builder [(fn_element, ''b'')] w1 of (rb, w2) \<Rightarrow>
      case combine3 (Sel 0) ''+'' (Sel 1) w2 of (re, w3) \<Rightarrow>
      case stringify Builder w3 of (r1, w4) \<Rightarrow>
      case stringify Builder w4 of (r2, w5) \<Rightarrow> (r1, r2))"

section \<open>Proofs\<close>

subsection \<open>What the methods compute\<close>

lemma indexOf_orderRule [simp]:
  "indexOf orderRule (Some k) = int (spec_index k)" "indexOf orderRule None = - 1"
  by (cases k; simp add: orderRule_def)+

lemma callMeth_eq:
  "callMeth v k b e s =
     (if js_gt1 (js_add1 (unicCall s k))
      then (Inl DuplicateError, s\<lparr>unicCall := (unicCall s)(k := js_add1 (unicCall s k))\<rparr>)
      else if (case last_sel s of None \<Rightarrow> False | Some l \<Rightarrow> spec_index k < spec_index l)
      then (Inl OrderError, s\<lparr>unicCall := (unicCall s)(k := js_add1 (unicCall s k)), last_sel := Some k\<rparr>)
      else (Inr (), s\<lparr>unicCall := (unicCall s)(k := js_add1 (unicCall s k)), last_sel := Some k,
                       str := str s @ or_empty b @ v @ or_empty e\<rparr>))"
  by (auto simp: callMeth_def checkCall_def checkOrder_def Let_def split: option.splits)

lemma invoke_callMeth:
  "invoke k v = callMeth v k (if k = fn_element then None else Some (spec_prefix k))
                             (if k = fn_attr then Some '']'' else None)"
  by (cases k; simp add: Selector_element_def Selector_id_def Selector_class_def
        Selector_attr_def Selector_pseudoClass_def Selector_pseudoElement_def)

lemma or_empty_prefix: "or_empty (if k = fn_element then None else Some (spec_prefix k)) = spec_prefix k"
  by (cases k; simp)

lemma or_empty_suffix: "or_empty (if k = fn_attr then Some '']'' else None) = spec_suffix k"
  by (cases k; simp)

lemma invoke_eq:
  "invoke k v s =
     (if js_gt1 (js_add1 (unicCall s k))
      then (Inl DuplicateError, s\<lparr>unicCall := (unicCall s)(k := js_add1 (unicCall s k))\<rparr>)
      else if (case last_sel s of None \<Rightarrow> False | Some l \<Rightarrow> spec_index k < spec_index l)
      then (Inl OrderError, s\<lparr>unicCall := (unicCall s)(k := js_add1 (unicCall s k)), last_sel := Some k\<rparr>)
      else (Inr (), s\<lparr>unicCall := (unicCall s)(k := js_add1 (unicCall s k)), last_sel := Some k,
                       str := str s @ spec_prefix k @ v @ spec_suffix k\<rparr>))"
  unfolding invoke_callMeth callMeth_eq or_empty_prefix or_empty_suffix ..

text \<open>The object a facade method creates.\<close>

lemma Selector_first: "\<not> js_gt1 (js_add1 (unicCall Selector k))"
  by (cases k; simp add: Selector_def)

lemma call_Builder: "call Builder k v w = setNewSelector v k w"
  by (cases k; simp add: cssSelectorBuilder_element_def cssSelectorBuilder_id_def
        cssSelectorBuilder_class_def cssSelectorBuilder_attr_def
        cssSelectorBuilder_pseudoClass_def cssSelectorBuilder_pseudoElement_def)

lemma setNewSelector_eq:
  "setNewSelector v k w =
     (Inr (Sel (length (heap w))),
      w\<lparr>heap := heap w @ [Selector\<lparr>unicCall := (unicCall Selector)(k := js_add1 (unicCall Selector k)),
                                   last_sel := Some k,
                                   str := spec_prefix k @ v @ spec_suffix k,
                                   prototype := Some CssSelectorBuilder\<rparr>],
        selectors := selectors w @ [length (heap w)]\<rparr>)"
  by (simp add: setNewSelector_def on_sel_def invoke_eq Selector_first Let_def)
     (simp add: Selector_def)

subsection \<open>A chain of fragment calls on one compound\<close>

lemma js_add1_pass:
  "(if spec_singleton k then c = Num 0 else \<not> holds_number c) \<Longrightarrow> \<not> js_gt1 (js_add1 c)"
  by (cases c; simp split: if_splits)

lemma js_add1_not_num: "\<not> holds_number c \<Longrightarrow> \<not> holds_number (js_add1 c)"
  by (cases c; simp)

lemma chain_Sel:
  "a < length (heap w) \<Longrightarrow>
   sorted (map (\<lambda>p. spec_index (fst p)) fs) \<Longrightarrow>
   distinct (filter spec_singleton (map fst fs)) \<Longrightarrow>
   (\<forall>l. last_sel (heap w ! a) = Some l \<longrightarrow> (\<forall>p\<in>set fs. spec_index l \<le> spec_index (fst p))) \<Longrightarrow>
   (\<forall>p\<in>set fs. if spec_singleton (fst p) then unicCall (heap w ! a) (fst p) = Num 0
                  else \<not> holds_number (unicCall (heap w ! a) (fst p))) \<Longrightarrow>
   \<exists>u. chain (Sel a) fs w = (Inr (Sel a), u) \<and> length (heap u) = length (heap w) \<and>
       str (heap u ! a) = str (heap w ! a) @ spec_render fs \<and>
       prototype (heap u ! a) = prototype (heap w ! a) \<and>
       selectors u = selectors w \<and> splitters u = splitters w"
proof (induction fs arbitrary: w)
  case Nil
  then show ?case by simp
next
  case (Cons p fs)
  obtain k v where p: "p = (k, v)" by (cases p)
  let ?s = "heap w ! a"
  let ?t = "?s\<lparr>unicCall := (unicCall ?s)(k := js_add1 (unicCall ?s k)), last_sel := Some k,
                str := str ?s @ spec_prefix k @ v @ spec_suffix k\<rparr>"
  let ?w1 = "w\<lparr>heap := (heap w)[a := ?t]\<rparr>"
  have "if spec_singleton k then unicCall ?s k = Num 0 else \<not> holds_number (unicCall ?s k)"
    using Cons.prems(5) p by auto
  then have pass: "\<not> js_gt1 (js_add1 (unicCall ?s k))"
    by (rule js_add1_pass)
  have ord: "\<not> (case last_sel ?s of None \<Rightarrow> False | Some l \<Rightarrow> spec_index k < spec_index l)"
    using Cons.prems(4) p by (auto split: option.splits)
  have step: "call (Sel a) k v w = (Inr (Sel a), ?w1)"
    using Cons.prems(1) pass ord by (simp add: on_sel_def invoke_eq)
  have a1: "a < length (heap ?w1)" using Cons.prems(1) by simp
  have t: "heap ?w1 ! a = ?t" using Cons.prems(1) by simp
  have s1: "sorted (map (\<lambda>p. spec_index (fst p)) fs)" using Cons.prems(2) by simp
  have d1: "distinct (filter spec_singleton (map fst fs))"
    using Cons.prems(3) by (simp split: if_splits)
  have l1: "\<forall>l. last_sel (heap ?w1 ! a) = Some l \<longrightarrow> (\<forall>q\<in>set fs. spec_index l \<le> spec_index (fst q))"
    using Cons.prems(2) p unfolding t by auto
  have c1: "\<forall>q\<in>set fs. if spec_singleton (fst q) then unicCall (heap ?w1 ! a) (fst q) = Num 0
                  else \<not> holds_number (unicCall (heap ?w1 ! a) (fst q))"
  proof
    fix q assume q: "q \<in> set fs"
    show "if spec_singleton (fst q) then unicCall (heap ?w1 ! a) (fst q) = Num 0
                  else \<not> holds_number (unicCall (heap ?w1 ! a) (fst q))"
    proof (cases "fst q = k")
      case True
      have "\<not> spec_singleton k"
      proof
        assume "spec_singleton k"
        then have "k \<notin> set (filter spec_singleton (map fst fs))"
          using Cons.prems(3) p by simp
        then show False using q True \<open>spec_singleton k\<close> by force
      qed
      then show ?thesis
        using True Cons.prems(5) p js_add1_not_num [of "unicCall ?s k"] unfolding t by simp
    next
      case False
      then show ?thesis using Cons.prems(5) q unfolding t by simp
    qed
  qed
  from Cons.IH [OF a1 s1 d1 l1 c1]
  obtain u where u: "chain (Sel a) fs ?w1 = (Inr (Sel a), u)" "length (heap u) = length (heap ?w1)"
     "str (heap u ! a) = str (heap ?w1 ! a) @ spec_render fs"
     "prototype (heap u ! a) = prototype (heap ?w1 ! a)"
     "selectors u = selectors ?w1" "splitters u = splitters ?w1"
    by blast
  have "chain (Sel a) (p # fs) w = (Inr (Sel a), u)"
    using step u(1) p by simp
  moreover have "str (heap u ! a) = str ?s @ spec_render (p # fs)"
    using u(3) p unfolding t by simp
  moreover have "prototype (heap u ! a) = prototype ?s"
    using u(4) unfolding t by simp
  ultimately show ?case using u(2,5,6) by simp
qed

lemma Selector_stringify_eq:
  "a < length (heap w) \<Longrightarrow> prototype (heap w ! a) = Some CssSelectorBuilder \<Longrightarrow>
   Selector_stringify a w =
     (Inr (str (heap w ! a)),
      w\<lparr>heap := (heap w)[a := (heap w ! a)\<lparr>str := [], last_sel := None\<rparr>], selectors := []\<rparr>)"
  by (simp add: Selector_stringify_def Let_def)

lemma chain_Builder:
  assumes "spec_valid ((k, v) # fs)"
  shows "\<exists>u. chain Builder ((k, v) # fs) w = (Inr (Sel (length (heap w))), u) \<and>
             length (heap w) < length (heap u) \<and>
             str (heap u ! length (heap w)) = spec_render ((k, v) # fs) \<and>
             prototype (heap u ! length (heap w)) = Some CssSelectorBuilder \<and>
             splitters u = splitters w"
proof -
  let ?a = "length (heap w)"
  let ?n = "Selector\<lparr>unicCall := (unicCall Selector)(k := js_add1 (unicCall Selector k)),
                      last_sel := Some k, str := spec_prefix k @ v @ spec_suffix k,
                      prototype := Some CssSelectorBuilder\<rparr>"
  let ?w1 = "w\<lparr>heap := heap w @ [?n], selectors := selectors w @ [?a]\<rparr>"
  have first: "call Builder k v w = (Inr (Sel ?a), ?w1)"
    by (simp add: call_Builder setNewSelector_eq)
  have n: "heap ?w1 ! ?a = ?n" by simp
  have a1: "?a < length (heap ?w1)" by simp
  have s1: "sorted (map (\<lambda>p. spec_index (fst p)) fs)"
    using assms by (simp add: spec_valid_def)
  have d1: "distinct (filter spec_singleton (map fst fs))"
    using assms by (simp add: spec_valid_def split: if_splits)
  have l1: "\<forall>l. last_sel (heap ?w1 ! ?a) = Some l \<longrightarrow> (\<forall>q\<in>set fs. spec_index l \<le> spec_index (fst q))"
    using assms unfolding n by (auto simp: spec_valid_def)
  have c1: "\<forall>q\<in>set fs. if spec_singleton (fst q) then unicCall (heap ?w1 ! ?a) (fst q) = Num 0
                  else \<not> holds_number (unicCall (heap ?w1 ! ?a) (fst q))"
  proof
    fix q assume q: "q \<in> set fs"
    have neq: "spec_singleton (fst q) \<Longrightarrow> fst q \<noteq> k"
    proof
      assume sq: "spec_singleton (fst q)" and "fst q = k"
      then have "k \<notin> set (filter spec_singleton (map fst fs))"
        using assms by (simp add: spec_valid_def)
      then show False using q sq \<open>fst q = k\<close> by force
    qed
    show "if spec_singleton (fst q) then unicCall (heap ?w1 ! ?a) (fst q) = Num 0
                  else \<not> holds_number (unicCall (heap ?w1 ! ?a) (fst q))"
      unfolding n using neq by (cases "fst q"; cases k; simp add: Selector_def)
  qed
  from chain_Sel [OF a1 s1 d1 l1 c1]
  obtain u where u: "chain (Sel ?a) fs ?w1 = (Inr (Sel ?a), u)" "length (heap u) = length (heap ?w1)"
     "str (heap u ! ?a) = str (heap ?w1 ! ?a) @ spec_render fs"
     "prototype (heap u ! ?a) = prototype (heap ?w1 ! ?a)"
     "selectors u = selectors ?w1" "splitters u = splitters ?w1"
    by blast
  have "chain Builder ((k, v) # fs) w = (Inr (Sel ?a), u)"
    using first u(1) by simp
  moreover have "str (heap u ! ?a) = spec_render ((k, v) # fs)"
    using u(3) unfolding n by simp
  moreover have "prototype (heap u ! ?a) = Some CssSelectorBuilder"
    using u(4) unfolding n by simp
  moreover have "?a < length (heap u)" using u(2) by simp
  ultimately show ?thesis using u(6) by simp
qed

lemma chain_Builder_stringify:
  assumes "spec_valid ((k, v) # fs)"
  shows "fst (and_then (chain Builder ((k, v) # fs)) stringify w) = Inr (spec_render ((k, v) # fs))"
proof -
  from chain_Builder [OF assms, of w]
  obtain u where u: "chain Builder ((k, v) # fs) w = (Inr (Sel (length (heap w))), u)"
     "length (heap w) < length (heap u)"
     "str (heap u ! length (heap w)) = spec_render ((k, v) # fs)"
     "prototype (heap u ! length (heap w)) = Some CssSelectorBuilder"
    by blast
  show ?thesis
    unfolding and_then_def u(1) using u(2,3,4) by (simp add: Selector_stringify_eq)
qed

subsection \<open>What every statement preserves\<close>

lemma holds_number_add1 [simp]: "holds_number (js_add1 c) = holds_number c"
  by (cases c; simp)

lemma obj_ok_invoke: "obj_ok s \<Longrightarrow> obj_ok (snd (invoke k v s))"
  by (simp add: invoke_eq obj_ok_def)

lemma obj_ok_reset [simp]: "obj_ok (s\<lparr>str := x, last_sel := l\<rparr>) = obj_ok s"
  by (simp add: obj_ok_def)

lemma obj_ok_new:
  "obj_ok (Selector\<lparr>unicCall := (unicCall Selector)(k := js_add1 (unicCall Selector k)),
                    last_sel := Some k, str := x, prototype := Some CssSelectorBuilder\<rparr>)"
proof -
  have "holds_number (unicCall Selector j) = spec_singleton j" for j
    by (cases j; simp add: Selector_def)
  then show ?thesis by (simp add: obj_ok_def)
qed

lemma obj_le_refl [simp]: "obj_le s s"
  by (simp add: obj_le_def)

lemma obj_le_trans: "obj_le s t \<Longrightarrow> obj_le t u \<Longrightarrow> obj_le s u"
  unfolding obj_le_def by (meson le_trans)

lemma obj_le_invoke: "obj_le s (snd (invoke k v s))"
  by (auto simp: invoke_eq obj_le_def)

lemma obj_le_reset [simp]: "obj_le s (s\<lparr>str := x, last_sel := l\<rparr>)"
  by (simp add: obj_le_def)

lemma world_le_refl [simp]: "world_le w w"
  by (simp add: world_le_def)

lemma world_le_trans: "world_le w u \<Longrightarrow> world_le u x \<Longrightarrow> world_le w x"
  unfolding world_le_def by (meson obj_le_trans le_trans less_le_trans)

lemma nth_update_if: "b < length xs \<Longrightarrow> xs[a := t] ! b = (if b = a then t else xs ! b)"
  by auto

lemma world_le_update:
  "obj_le (heap w ! a) t \<Longrightarrow> world_le w (w\<lparr>heap := (heap w)[a := t], selectors := ss\<rparr>)"
  by (simp add: world_le_def nth_update_if)

lemma world_ok_update:
  "world_ok w \<Longrightarrow> obj_ok t \<Longrightarrow> world_ok (w\<lparr>heap := (heap w)[a := t], selectors := ss\<rparr>)"
  by (simp add: world_ok_def nth_update_if)

lemma snd_on_sel:
  "snd (on_sel a m w) =
     (if a < length (heap w) then w\<lparr>heap := (heap w)[a := snd (m (heap w ! a))]\<rparr> else w)"
  by (simp add: on_sel_def split: prod.splits sum.splits)

lemma snd_Selector_stringify:
  "snd (Selector_stringify a w) =
     (if a < length (heap w)
      then w\<lparr>heap := (heap w)[a := (heap w ! a)\<lparr>str := [], last_sel := None\<rparr>],
             selectors := (if prototype (heap w ! a) = None then selectors w else [])\<rparr>
      else w)"
  by (simp add: Selector_stringify_def Let_def split: option.splits facade.splits)

lemma Selector_stringify_keeps:
  "world_le w (snd (Selector_stringify a w))"
  "world_ok w \<Longrightarrow> world_ok (snd (Selector_stringify a w))"
  "splitters (snd (Selector_stringify a w)) = splitters w"
  "length (heap (snd (Selector_stringify a w))) = length (heap w)"
proof -
  show "world_le w (snd (Selector_stringify a w))"
    unfolding snd_Selector_stringify using world_le_update [where w = w and a = a] by simp
  show "world_ok w \<Longrightarrow> world_ok (snd (Selector_stringify a w))"
    unfolding snd_Selector_stringify using world_ok_update [where w = w and a = a]
    by (simp add: world_ok_def)
  show "splitters (snd (Selector_stringify a w)) = splitters w"
    unfolding snd_Selector_stringify by simp
  show "length (heap (snd (Selector_stringify a w))) = length (heap w)"
    unfolding snd_Selector_stringify by simp
qed

lemma map_selectors_keeps:
  "world_le w (snd (map_selectors ss i w)) \<and>
   (world_ok w \<longrightarrow> world_ok (snd (map_selectors ss i w))) \<and>
   splitters (snd (map_selectors ss i w)) = splitters w \<and>
   length (heap (snd (map_selectors ss i w))) = length (heap w)"
proof (induction ss arbitrary: i w)
  case Nil
  show ?case by simp
next
  case (Cons a ss)
  let ?w1 = "snd (Selector_stringify a w)"
  show ?case
  proof (cases "fst (Selector_stringify a w)")
    case (Inl e)
    then have "snd (map_selectors (a # ss) i w) = ?w1"
      by (cases "Selector_stringify a w") simp
    then show ?thesis using Selector_stringify_keeps [where w = w and a = a] by simp
  next
    case (Inr r)
    then have "snd (map_selectors (a # ss) i w) = snd (map_selectors ss (i + 1) ?w1)"
      by (cases "Selector_stringify a w") (simp add: Let_def split: prod.splits sum.splits)
    then show ?thesis
      using Selector_stringify_keeps [where w = w and a = a] Cons.IH [where i = "i + 1" and w = ?w1]
      by (auto intro: world_le_trans)
  qed
qed

lemma facade_fields_irrelevant [simp]:
  "world_le w (u\<lparr>selectors := ss, splitters := sp\<rparr>) = world_le w u"
  "world_ok (u\<lparr>selectors := ss, splitters := sp\<rparr>) = world_ok u"
  "world_le w (u\<lparr>splitters := sp\<rparr>) = world_le w u"
  "world_ok (u\<lparr>splitters := sp\<rparr>) = world_ok u"
  "world_le w (u\<lparr>selectors := ss\<rparr>) = world_le w u"
  "world_ok (u\<lparr>selectors := ss\<rparr>) = world_ok u"
  by (simp_all add: world_le_def world_ok_def)

lemma snd_cssSelectorBuilder_stringify:
  "\<exists>ss sp. snd (cssSelectorBuilder_stringify w) =
     (snd (map_selectors (selectors w) 0 w))\<lparr>selectors := ss, splitters := sp\<rparr>"
proof -
  let ?u = "snd (map_selectors (selectors w) 0 w)"
  have "snd (cssSelectorBuilder_stringify w) = ?u \<or>
        snd (cssSelectorBuilder_stringify w) = ?u\<lparr>selectors := [], splitters := []\<rparr>"
    by (simp add: cssSelectorBuilder_stringify_def split: prod.splits sum.splits)
  moreover have "?u = ?u\<lparr>selectors := selectors ?u, splitters := splitters ?u\<rparr>" by simp
  ultimately show ?thesis by metis
qed

lemma step_keeps: "world_le w (step p w) \<and> (world_ok w \<longrightarrow> world_ok (step p w))"
proof (cases p)
  case (Call x k v)
  show ?thesis
  proof (cases x)
    case (Sel a)
    have "world_le w (snd (on_sel a (invoke k v) w))"
      unfolding snd_on_sel
      using world_le_update [where w = w and a = a and t = "snd (invoke k v (heap w ! a))"
                                and ss = "selectors w"]
      by (simp add: obj_le_invoke)
    moreover have "world_ok w \<Longrightarrow> world_ok (snd (on_sel a (invoke k v) w))"
      unfolding snd_on_sel
      using world_ok_update [where w = w and a = a and t = "snd (invoke k v (heap w ! a))"
                                and ss = "selectors w"]
      by (simp add: obj_ok_invoke world_ok_def)
    ultimately show ?thesis using Call Sel by simp
  next
    case Builder
    have "world_le w (snd (setNewSelector v k w))"
      by (auto simp: setNewSelector_eq world_le_def nth_append)
    moreover have "world_ok w \<Longrightarrow> world_ok (snd (setNewSelector v k w))"
      using obj_ok_new by (auto simp: setNewSelector_eq world_ok_def nth_append less_Suc_eq)
    ultimately show ?thesis using Call Builder by (simp add: call_Builder)
  qed
next
  case (Combine a b c)
  then show ?thesis by (simp add: combine3_def combine_def)
next
  case (Stringify x)
  show ?thesis
  proof (cases x)
    case (Sel a)
    then show ?thesis using Stringify Selector_stringify_keeps [where w = w and a = a] by simp
  next
    case Builder
    obtain ss sp where "snd (cssSelectorBuilder_stringify w) =
        (snd (map_selectors (selectors w) 0 w))\<lparr>selectors := ss, splitters := sp\<rparr>"
      using snd_cssSelectorBuilder_stringify by blast
    then show ?thesis
      using Stringify Builder map_selectors_keeps [where w = w and ss = "selectors w" and i = 0]
      by simp
  qed
qed

lemma run_keeps: "world_le w (run ps w) \<and> (world_ok w \<longrightarrow> world_ok (run ps w))"
proof (induction ps arbitrary: w)
  case Nil
  show ?case by simp
next
  case (Cons p ps)
  show ?case
    using step_keeps [where w = w and p = p] Cons.IH [of "step p w"]
    by (auto intro: world_le_trans)
qed

lemma world_ok_init: "world_ok init_world"
  by (simp add: world_ok_def init_world_def)

lemma world_ok_run: "world_ok (run ps init_world)"
  using run_keeps [where w = init_world and ps = ps] world_ok_init by simp

subsection \<open>A fragment call that succeeds, in a reachable state\<close>

lemma on_sel_invoke:
  "a < length (heap w) \<Longrightarrow>
   on_sel a (invoke k v) w =
     (if js_gt1 (js_add1 (unicCall (heap w ! a) k))
      then (Inl DuplicateError,
            w\<lparr>heap := (heap w)[a := (heap w ! a)\<lparr>unicCall :=
               (unicCall (heap w ! a))(k := js_add1 (unicCall (heap w ! a) k))\<rparr>]\<rparr>)
      else if (case last_sel (heap w ! a) of None \<Rightarrow> False | Some l \<Rightarrow> spec_index k < spec_index l)
      then (Inl OrderError,
            w\<lparr>heap := (heap w)[a := (heap w ! a)\<lparr>unicCall :=
               (unicCall (heap w ! a))(k := js_add1 (unicCall (heap w ! a) k)), last_sel := Some k\<rparr>]\<rparr>)
      else (Inr (Sel a),
            w\<lparr>heap := (heap w)[a := (heap w ! a)\<lparr>unicCall :=
               (unicCall (heap w ! a))(k := js_add1 (unicCall (heap w ! a) k)), last_sel := Some k,
               str := str (heap w ! a) @ spec_prefix k @ v @ spec_suffix k\<rparr>]\<rparr>))"
  by (simp add: on_sel_def invoke_eq)

lemma call_success:
  assumes "call x k v w = (Inr (Sel a), u)"
  shows "a < length (heap u)" and "last_sel (heap u ! a) = Some k" and "u = step (Call x k v) w"
proof -
  have all: "a < length (heap u) \<and> last_sel (heap u ! a) = Some k \<and> u = step (Call x k v) w"
  proof (cases x)
    case (Sel b)
    have b: "b < length (heap w)"
      using assms Sel by (cases "b < length (heap w)") (simp_all add: on_sel_def)
    show ?thesis
      using assms Sel b by (auto simp: on_sel_invoke split: if_splits)
  next
    case Builder
    show ?thesis
      using assms Builder by (auto simp: call_Builder setNewSelector_eq)
  qed
  show "a < length (heap u)" using all by blast
  show "last_sel (heap u ! a) = Some k" using all by blast
  show "u = step (Call x k v) w" using all by blast
qed

lemma counter_cases:
  assumes "obj_ok s"
  shows "js_gt1 (js_add1 (unicCall s k)) = (spec_singleton k \<and> unicCall s k \<noteq> Num 0)"
proof -
  have h: "holds_number (unicCall s k) = spec_singleton k"
    using assms by (simp add: obj_ok_def)
  show ?thesis
    using h by (cases "unicCall s k") auto
qed

lemma call_Sel_result:
  assumes "a < length (heap w)" and "obj_ok (heap w ! a)" and "last_sel (heap w ! a) = Some l"
  shows "fst (call (Sel a) k v w) =
     (if spec_singleton k \<and> unicCall (heap w ! a) k \<noteq> Num 0 then Inl DuplicateError
      else if spec_index k < spec_index l then Inl OrderError
      else Inr (Sel a))"
  using assms by (simp add: on_sel_invoke counter_cases)

lemma call_Sel_appends:
  assumes "a < length (heap w)" and "fst (call (Sel a) k v w) = Inr y"
  shows "str (heap (snd (call (Sel a) k v w)) ! a) = str (heap w ! a) @ spec_prefix k @ v @ spec_suffix k"
  using assms by (simp add: on_sel_invoke split: if_splits)

lemma call_success_counted:
  assumes "world_ok w" and "spec_singleton k" and "call x k v w = (Inr (Sel a), u)"
  shows "\<exists>m. unicCall (heap u ! a) k = Num (Suc m)"
proof (cases x)
  case (Sel b)
  have b: "b < length (heap w)"
    using assms(3) Sel by (cases "b < length (heap w)") (simp_all add: on_sel_def)
  have "holds_number (unicCall (heap w ! b) k)"
    using assms(1,2) b by (simp add: world_ok_def obj_ok_def)
  then obtain n where n: "unicCall (heap w ! b) k = Num n"
    by (cases "unicCall (heap w ! b) k") auto
  show ?thesis
    using assms(3) Sel b n by (auto simp: on_sel_invoke split: if_splits)
next
  case Builder
  have "unicCall Selector k = Num 0"
    using assms(2) by (cases k; simp add: Selector_def)
  then show ?thesis
    using assms(3) Builder by (auto simp: call_Builder setNewSelector_eq)
qed

subsection \<open>What the facade's stringify leaves behind\<close>

lemma Selector_stringify_success:
  assumes "Selector_stringify a w = (Inr r, u)"
  shows "a < length (heap w)" and "prototype (heap w ! a) = Some CssSelectorBuilder"
    and "u = w\<lparr>heap := (heap w)[a := (heap w ! a)\<lparr>str := [], last_sel := None\<rparr>], selectors := []\<rparr>"
    and "r = str (heap w ! a)"
proof -
  have a: "a < length (heap w)"
    using assms by (cases "a < length (heap w)") (simp_all add: Selector_stringify_def)
  have p: "prototype (heap w ! a) = Some CssSelectorBuilder"
    using assms a
    by (cases "prototype (heap w ! a)") (auto simp: Selector_stringify_def Let_def split: facade.splits)
  show "a < length (heap w)" by (rule a)
  show "prototype (heap w ! a) = Some CssSelectorBuilder" by (rule p)
  show "u = w\<lparr>heap := (heap w)[a := (heap w ! a)\<lparr>str := [], last_sel := None\<rparr>], selectors := []\<rparr>"
    using assms by (simp add: Selector_stringify_eq [OF a p])
  show "r = str (heap w ! a)"
    using assms by (simp add: Selector_stringify_eq [OF a p])
qed

lemma Selector_stringify_keeps_empty:
  assumes "b < length (heap w)" and "str (heap w ! b) = []"
  shows "str (heap (snd (Selector_stringify a w)) ! b) = []"
  using assms by (simp add: snd_Selector_stringify nth_update_if)

lemma map_selectors_keeps_empty:
  "b < length (heap w) \<Longrightarrow> str (heap w ! b) = [] \<Longrightarrow>
   str (heap (snd (map_selectors ss i w)) ! b) = []"
proof (induction ss arbitrary: i w)
  case Nil
  then show ?case by simp
next
  case (Cons a ss)
  let ?w1 = "snd (Selector_stringify a w)"
  have b1: "b < length (heap ?w1)"
    using Cons.prems(1) Selector_stringify_keeps(4) [where w = w and a = a] by simp
  have e1: "str (heap ?w1 ! b) = []"
    using Cons.prems by (rule Selector_stringify_keeps_empty)
  show ?case
  proof (cases "fst (Selector_stringify a w)")
    case (Inl e)
    then have "snd (map_selectors (a # ss) i w) = ?w1"
      by (cases "Selector_stringify a w") simp
    then show ?thesis using e1 by simp
  next
    case (Inr r)
    then have "snd (map_selectors (a # ss) i w) = snd (map_selectors ss (i + 1) ?w1)"
      by (cases "Selector_stringify a w") (simp add: Let_def split: prod.splits sum.splits)
    then show ?thesis
      using Cons.IH [where i = "i + 1" and w = ?w1, OF b1 e1] by simp
  qed
qed

lemma map_selectors_resets:
  "map_selectors ss i w = (Inr rs, u) \<Longrightarrow> \<forall>b\<in>set ss. str (heap u ! b) = []"
proof (induction ss arbitrary: i w rs u)
  case Nil
  then show ?case by simp
next
  case (Cons a ss)
  obtain r w1 where s: "Selector_stringify a w = (Inr r, w1)"
    using Cons.prems
    by (cases "Selector_stringify a w"; cases "fst (Selector_stringify a w)") auto
  obtain rs1 where m: "map_selectors ss (i + 1) w1 = (Inr rs1, u)"
    using Cons.prems s
    by (cases "map_selectors ss (i + 1) w1"; cases "fst (map_selectors ss (i + 1) w1)")
       (auto simp: Let_def)
  have a: "a < length (heap w1)" "str (heap w1 ! a) = []"
    using Selector_stringify_success [OF s] by simp_all
  have "str (heap (snd (map_selectors ss (i + 1) w1)) ! a) = []"
    using a by (rule map_selectors_keeps_empty)
  then have "str (heap u ! a) = []" using m by simp
  then show ?case using Cons.IH [OF m] by simp
qed

lemma cssSelectorBuilder_stringify_success:
  assumes "fst (cssSelectorBuilder_stringify w) = Inr r"
  shows "selectors (snd (cssSelectorBuilder_stringify w)) = []"
    and "splitters (snd (cssSelectorBuilder_stringify w)) = []"
    and "\<forall>b\<in>set (selectors w). str (heap (snd (cssSelectorBuilder_stringify w)) ! b) = []"
proof -
  obtain rs u where m: "map_selectors (selectors w) 0 w = (Inr rs, u)"
    using assms
    by (cases "map_selectors (selectors w) 0 w"; cases "fst (map_selectors (selectors w) 0 w)")
       (auto simp: cssSelectorBuilder_stringify_def)
  have c: "snd (cssSelectorBuilder_stringify w) = u\<lparr>selectors := [], splitters := []\<rparr>"
    using assms m by (cases "reduce_concat rs") (auto simp: cssSelectorBuilder_stringify_def)
  show "selectors (snd (cssSelectorBuilder_stringify w)) = []" unfolding c by simp
  show "splitters (snd (cssSelectorBuilder_stringify w)) = []" unfolding c by simp
  show "\<forall>b\<in>set (selectors w). str (heap (snd (cssSelectorBuilder_stringify w)) ! b) = []"
    unfolding c using map_selectors_resets [OF m] by simp
qed

lemma reachable_prototype:
  assumes "a < length (heap (run ops init_world))"
  shows "prototype (heap (run ops init_world) ! a) = Some CssSelectorBuilder"
  using world_ok_run [of ops] assms by (simp add: world_ok_def obj_ok_def)

section \<open>The claims\<close>

text \<open>
  C1 (as the code has it). In the freshly loaded module, building the four compounds
  \<open>A\<close>, \<open>B\<close>, \<open>C\<close>, \<open>D\<close> and combining them as
  \<open>combine(A, '+', combine(B, '~', combine(C, ' ', D)))\<close> makes \<open>stringify\<close> return
  \<open>"div#main.container.draggable + table#data ~ tr:nth-of-type(even)   td:nth-of-type(even)"\<close>:
  every combinator is written as space, operator, space, the descendant combinator too,
  which therefore comes out as three spaces (as in the example of the source's comment).
\<close>

theorem C1_combine_scenario:
  "fst (scenario_combine init_world) =
     Inr ''div#main.container.draggable + table#data ~ tr:nth-of-type(even)   td:nth-of-type(even)''"
  by code_simp

text \<open>Against C1 as stated: the output with a single space for the descendant
  combinator is not what \<open>stringify\<close> returns.\<close>

theorem C1_counterexample:
  "fst (scenario_combine init_world) \<noteq>
     Inr ''div#main.container.draggable + table#data ~ tr:nth-of-type(even) td:nth-of-type(even)''"
  by code_simp

text \<open>
  C2 (as the code has it). \<open>stringify\<close> returns the text accumulated so far and
  consumes it. On a compound that the builder created it succeeds and returns the
  compound's string, leaves the compound with the empty string and no last kind, and
  empties the facade's \<open>selectors\<close> list; a second \<open>stringify\<close> of the same
  compound therefore returns the empty string. On the facade (the value that
  \<open>combine\<close> returns), a \<open>stringify\<close> that succeeds leaves both shared lists empty
  and every compound it serialized with the empty string.
\<close>

theorem C2_stringify_consumes:
  assumes "w = run ops init_world" and "a < length (heap w)"
  shows "fst (stringify (Sel a) w) = Inr (str (heap w ! a))
       \<and> str (heap (snd (stringify (Sel a) w)) ! a) = []
       \<and> last_sel (heap (snd (stringify (Sel a) w)) ! a) = None
       \<and> selectors (snd (stringify (Sel a) w)) = []
       \<and> fst (stringify (Sel a) (snd (stringify (Sel a) w))) = Inr []
       \<and> (fst (stringify Builder w') = Inr r \<longrightarrow>
            selectors (snd (stringify Builder w')) = []
          \<and> splitters (snd (stringify Builder w')) = []
          \<and> (\<forall>b\<in>set (selectors w'). str (heap (snd (stringify Builder w')) ! b) = []))"
proof -
  have p: "prototype (heap w ! a) = Some CssSelectorBuilder"
    using assms reachable_prototype by simp
  let ?u = "w\<lparr>heap := (heap w)[a := (heap w ! a)\<lparr>str := [], last_sel := None\<rparr>], selectors := []\<rparr>"
  have first: "Selector_stringify a w = (Inr (str (heap w ! a)), ?u)"
    by (rule Selector_stringify_eq [OF assms(2) p])
  have au: "a < length (heap ?u)" using assms(2) by simp
  have pu: "prototype (heap ?u ! a) = Some CssSelectorBuilder" using assms(2) p by simp
  have second: "fst (Selector_stringify a ?u) = Inr []"
    using assms(2) by (simp add: Selector_stringify_eq [OF au pu])
  have facade: "fst (stringify Builder w') = Inr r \<longrightarrow>
            selectors (snd (stringify Builder w')) = []
          \<and> splitters (snd (stringify Builder w')) = []
          \<and> (\<forall>b\<in>set (selectors w'). str (heap (snd (stringify Builder w')) ! b) = [])"
    using cssSelectorBuilder_stringify_success [of w' r] by simp
  show ?thesis
    using first second facade assms(2) by simp
qed

theorem C2_witness:
  "0 < length (heap (run [Call Builder fn_id ''main''] init_world))
   \<and> fst (stringify (Sel 0) (run [Call Builder fn_id ''main''] init_world)) = Inr ''#main''
   \<and> fst (stringify (Sel 0) (snd (stringify (Sel 0) (run [Call Builder fn_id ''main''] init_world))))
       = Inr []
   \<and> fst (stringify Builder (run [Call Builder fn_element ''a'', Call Builder fn_element ''b'',
                                    Combine (Sel 0) ''+'' (Sel 1)] init_world)) = Inr ''a + b''
   \<and> selectors (snd (stringify Builder (run [Call Builder fn_element ''a'', Call Builder fn_element ''b'',
                                    Combine (Sel 0) ''+'' (Sel 1)] init_world))) = []
   \<and> splitters (snd (stringify Builder (run [Call Builder fn_element ''a'', Call Builder fn_element ''b'',
                                    Combine (Sel 0) ''+'' (Sel 1)] init_world))) = []"
proof -
  let ?w = "run [Call Builder fn_id ''main''] init_world"
  let ?w' = "run [Call Builder fn_element ''a'', Call Builder fn_element ''b'',
                  Combine (Sel 0) ''+'' (Sel 1)] init_world"
  have h: "0 < length (heap ?w)" by code_simp
  have s: "str (heap ?w ! 0) = ''#main''" by code_simp
  have f: "fst (stringify Builder ?w') = Inr ''a + b''" by code_simp
  note t = C2_stringify_consumes [OF refl h, of ?w' "''a + b''"]
  have r1: "fst (stringify (Sel 0) ?w) = Inr ''#main''"
    using t s by (simp only:)
  have r2: "fst (stringify (Sel 0) (snd (stringify (Sel 0) ?w))) = Inr []"
    using t by blast
  have r3: "selectors (snd (stringify Builder ?w')) = [] \<and> splitters (snd (stringify Builder ?w')) = []"
    using t f by blast
  show ?thesis using h f r1 r2 r3 by blast
qed

text \<open>Against C2 as stated: calling \<open>stringify\<close> twice on the same compound does
  not give the same output twice, the second call finds the string that the first one reset.\<close>

theorem C2_counterexample:
  "fst (stringify (Sel 0) (run [Call Builder fn_id ''main''] init_world)) = Inr ''#main''
   \<and> fst (stringify (Sel 0) (snd (stringify (Sel 0) (run [Call Builder fn_id ''main''] init_world))))
       = Inr []
   \<and> fst (stringify (Sel 0) (snd (stringify (Sel 0) (run [Call Builder fn_id ''main''] init_world))))
       \<noteq> fst (stringify (Sel 0) (run [Call Builder fn_id ''main''] init_world))"
  by code_simp

text \<open>
  C3 (as the code has it). When a fragment call on a compound fails, the error is the
  duplicate-fragment or the order-violation error, and the compound's accumulated string
  is unchanged; so are its \<open>prototype\<close>, the counters of the other kinds, every other
  object and both lists of the facade. The counter of the attempted kind has been
  advanced by the call: the counters count calls, failed ones included. After a
  duplicate-fragment error the last-kind marker is unchanged as well.
\<close>

theorem C3_failed_append:
  assumes "a < length (heap w)" and "call (Sel a) k v w = (Inl e, u)"
  shows "(e = DuplicateError \<or> e = OrderError)
       \<and> str (heap u ! a) = str (heap w ! a)
       \<and> prototype (heap u ! a) = prototype (heap w ! a)
       \<and> unicCall (heap u ! a) = (unicCall (heap w ! a))(k := js_add1 (unicCall (heap w ! a) k))
       \<and> (e = DuplicateError \<longrightarrow> last_sel (heap u ! a) = last_sel (heap w ! a))
       \<and> length (heap u) = length (heap w)
       \<and> (\<forall>b. b \<noteq> a \<longrightarrow> heap u ! b = heap w ! b)
       \<and> selectors u = selectors w \<and> splitters u = splitters w"
  using assms by (auto simp: on_sel_invoke split: if_splits)

theorem C3_witness:
  "0 < length (heap after_element_a)
   \<and> fst (call (Sel 0) fn_element ''b'' after_element_a) = Inl DuplicateError
   \<and> str (heap (snd (call (Sel 0) fn_element ''b'' after_element_a)) ! 0) = ''a''
   \<and> last_sel (heap (snd (call (Sel 0) fn_element ''b'' after_element_a)) ! 0) = Some fn_element
   \<and> unicCall (heap (snd (call (Sel 0) fn_element ''b'' after_element_a)) ! 0) fn_id = Num 0
   \<and> selectors (snd (call (Sel 0) fn_element ''b'' after_element_a)) = [0]
   \<and> 0 < length (heap after_class_a)
   \<and> fst (call (Sel 0) fn_element ''b'' after_class_a) = Inl OrderError
   \<and> str (heap (snd (call (Sel 0) fn_element ''b'' after_class_a)) ! 0) = ''.a''"
proof -
  let ?u = "snd (call (Sel 0) fn_element ''b'' after_element_a)"
  have h: "0 < length (heap after_element_a)" by code_simp
  have f: "fst (call (Sel 0) fn_element ''b'' after_element_a) = Inl DuplicateError" by code_simp
  then have c: "call (Sel 0) fn_element ''b'' after_element_a = (Inl DuplicateError, ?u)"
    by (metis prod.collapse)
  have s: "str (heap after_element_a ! 0) = ''a''"
          "last_sel (heap after_element_a ! 0) = Some fn_element"
          "unicCall (heap after_element_a ! 0) fn_id = Num 0"
          "selectors after_element_a = [0]"
    by code_simp+
  note t = C3_failed_append [OF h c]
  have r1: "str (heap ?u ! 0) = ''a''" using t s(1) by metis
  have r2: "last_sel (heap ?u ! 0) = Some fn_element" using t s(2) by metis
  have "unicCall (heap ?u ! 0) fn_id = unicCall (heap after_element_a ! 0) fn_id"
    using t by simp
  then have r3: "unicCall (heap ?u ! 0) fn_id = Num 0" using s(3) by simp
  have r4: "selectors ?u = [0]" using t s(4) by metis
  let ?x = "snd (call (Sel 0) fn_element ''b'' after_class_a)"
  have h': "0 < length (heap after_class_a)" by code_simp
  have f': "fst (call (Sel 0) fn_element ''b'' after_class_a) = Inl OrderError" by code_simp
  then have c': "call (Sel 0) fn_element ''b'' after_class_a = (Inl OrderError, ?x)"
    by (metis prod.collapse)
  have s': "str (heap after_class_a ! 0) = ''.a''" by code_simp
  have r5: "str (heap ?x ! 0) = ''.a''"
    using C3_failed_append [OF h' c'] s' by metis
  show ?thesis using h f r1 r2 r3 r4 h' f' r5 by blast
qed

text \<open>
  Against C3 as stated: a failed call does change the compound. After \<open>const c = class('a')\<close>, the call
  \<open>c.element('b')\<close> fails with the order-violation error and leaves \<open>last\<close> at
  \<open>'element'\<close> and the counter of \<open>element\<close> at 1; the compound then accepts
  \<open>c.id('x')\<close> and serializes as \<open>".a#x"\<close>. After \<open>const d = element('a')\<close>,
  the failed \<open>d.element('b')\<close> leaves the counter of \<open>element\<close> at 2.
\<close>

theorem C3_counterexample:
  "fst (call (Sel 0) fn_element ''b'' after_class_a) = Inl OrderError
   \<and> last_sel (heap after_class_a ! 0) = Some fn_class
   \<and> last_sel (heap (snd (call (Sel 0) fn_element ''b'' after_class_a)) ! 0) = Some fn_element
   \<and> unicCall (heap after_class_a ! 0) fn_element = Num 0
   \<and> unicCall (heap (snd (call (Sel 0) fn_element ''b'' after_class_a)) ! 0) fn_element = Num 1
   \<and> fst (and_then (call (Sel 0) fn_id ''x'') stringify
            (snd (call (Sel 0) fn_element ''b'' after_class_a))) = Inr ''.a#x''
   \<and> fst (call (Sel 0) fn_element ''b'' after_element_a) = Inl DuplicateError
   \<and> unicCall (heap after_element_a ! 0) fn_element = Num 1
   \<and> unicCall (heap (snd (call (Sel 0) fn_element ''b'' after_element_a)) ! 0) fn_element = Num 2"
  by code_simp

text \<open>
  C4. Take any reachable state of the module and a fragment call of a singleton kind
  (element, id or pseudoElement) that succeeds there, on the facade (creating the
  compound) or on a compound: the compound it returns now contains a fragment of that
  kind. Whatever statements run afterwards, on this compound or elsewhere, a further
  call of the same kind on that compound fails with the duplicate-fragment error.
\<close>

theorem C4_second_singleton_fails:
  assumes "spec_singleton k"
    and "call x k v (run ops1 init_world) = (Inr (Sel a), w)"
  shows "fst (call (Sel a) k v' (run ops2 w)) = Inl DuplicateError"
proof -
  let ?u = "run ops2 w"
  have ok: "world_ok (run ops1 init_world)" by (rule world_ok_run)
  have a: "a < length (heap w)" by (rule call_success(1) [OF assms(2)])
  from call_success_counted [OF ok assms(1,2)]
  obtain m where m: "unicCall (heap w ! a) k = Num (Suc m)" by blast
  have le: "world_le w ?u" using run_keeps [where w = w and ps = ops2] by simp
  then have au: "a < length (heap ?u)" using a by (simp add: world_le_def)
  have "obj_le (heap w ! a) (heap ?u ! a)" using le a by (simp add: world_le_def)
  then obtain n where n: "Suc m \<le> n" "unicCall (heap ?u ! a) k = Num n"
    using m unfolding obj_le_def by blast
  show ?thesis using au n by (simp add: on_sel_invoke)
qed

theorem C4_witness:
  "spec_singleton fn_id
   \<and> fst (call Builder fn_id ''main'' (run [] init_world)) = Inr (Sel 0)
   \<and> fst (call (Sel 0) fn_id ''other''
           (run [Call (Sel 0) fn_class ''container'', Call Builder fn_element ''p'', Stringify (Sel 0)]
                (snd (call Builder fn_id ''main'' (run [] init_world))))) = Inl DuplicateError"
proof -
  have s: "spec_singleton fn_id" by simp
  have f: "fst (call Builder fn_id ''main'' (run [] init_world)) = Inr (Sel 0)"
    by code_simp
  then have c: "call Builder fn_id ''main'' (run [] init_world)
                = (Inr (Sel 0), snd (call Builder fn_id ''main'' (run [] init_world)))"
    by (metis prod.collapse)
  have r: "fst (call (Sel 0) fn_id ''other''
           (run [Call (Sel 0) fn_class ''container'', Call Builder fn_element ''p'', Stringify (Sel 0)]
                (snd (call Builder fn_id ''main'' (run [] init_world))))) = Inl DuplicateError"
    by (rule C4_second_singleton_fails [OF s c])
  show ?thesis
    using s f r by blast
qed

text \<open>
  C5 (as the code has it). Take a compound whose latest call appended a fragment of kind
  \<open>l\<close> in a reachable state, and a further call of kind \<open>k\<close> on it. The cardinality
  check comes first: when \<open>k\<close> is a singleton kind that was already called on the
  compound, the call fails with the duplicate-fragment error whatever the order. Otherwise
  the call fails with the order-violation error when the canonical index of \<open>k\<close> is
  strictly less than that of \<open>l\<close>, and succeeds, appending prefix, text and suffix,
  when it is equal or greater.
\<close>

theorem C5_order_after_cardinality:
  assumes "call x l t (run ops init_world) = (Inr (Sel a), w)"
  shows "fst (call (Sel a) k v w) =
           (if spec_singleton k \<and> unicCall (heap w ! a) k \<noteq> Num 0 then Inl DuplicateError
            else if spec_index k < spec_index l then Inl OrderError
            else Inr (Sel a))
         \<and> (fst (call (Sel a) k v w) = Inr (Sel a) \<longrightarrow>
              str (heap (snd (call (Sel a) k v w)) ! a)
                = str (heap w ! a) @ spec_prefix k @ v @ spec_suffix k)"
proof -
  note a = call_success(1) [OF assms] and l = call_success(2) [OF assms]
    and w = call_success(3) [OF assms]
  have "world_ok w"
    unfolding w using step_keeps [where w = "run ops init_world"] world_ok_run by blast
  then have ok: "obj_ok (heap w ! a)" using a by (simp add: world_ok_def)
  show ?thesis
    using call_Sel_result [OF a ok l] call_Sel_appends [OF a] by blast
qed

theorem C5_witness:
  "fst (call Builder fn_class ''c'' (run [Call Builder fn_id ''other''] init_world)) = Inr (Sel 1)
   \<and> fst (call (Sel 1) fn_id ''x'' (snd (call Builder fn_class ''c'' (run [Call Builder fn_id ''other''] init_world))))
       = Inl OrderError
   \<and> fst (call (Sel 1) fn_class ''d'' (snd (call Builder fn_class ''c'' (run [Call Builder fn_id ''other''] init_world))))
       = Inr (Sel 1)
   \<and> str (heap (snd (call (Sel 1) fn_attr ''e''
        (snd (call Builder fn_class ''c'' (run [Call Builder fn_id ''other''] init_world))))) ! 1) = ''.c[e]''"
proof -
  let ?w = "snd (call Builder fn_class ''c'' (run [Call Builder fn_id ''other''] init_world))"
  have f: "fst (call Builder fn_class ''c'' (run [Call Builder fn_id ''other''] init_world)) = Inr (Sel 1)"
    by code_simp
  then have c: "call Builder fn_class ''c'' (run [Call Builder fn_id ''other''] init_world) = (Inr (Sel 1), ?w)"
    by (metis prod.collapse)
  have u: "unicCall (heap ?w ! 1) fn_id = Num 0" "str (heap ?w ! 1) = ''.c''"
    by code_simp+
  have r1: "fst (call (Sel 1) fn_id ''x'' ?w) = Inl OrderError"
    using C5_order_after_cardinality [OF c, of fn_id "''x''"] u(1) by simp
  have r2: "fst (call (Sel 1) fn_class ''d'' ?w) = Inr (Sel 1)"
    using C5_order_after_cardinality [OF c, of fn_class "''d''"] by simp
  have r3: "str (heap (snd (call (Sel 1) fn_attr ''e'' ?w)) ! 1) = ''.c[e]''"
    using C5_order_after_cardinality [OF c, of fn_attr "''e''"] u(2) by simp
  show ?thesis
    using f r1 r2 r3 by blast
qed

text \<open>Against C5 as stated: two calls that end otherwise than their order index says, a
  kind of equal index that does not succeed, and a kind of lower index that fails with the
  other error.\<close>

theorem C5_counterexample:
  "spec_index fn_element \<le> spec_index fn_element
   \<and> fst (chain Builder [(fn_element, ''a''), (fn_element, ''b'')] init_world) = Inl DuplicateError
   \<and> spec_index fn_id < spec_index fn_class
   \<and> fst (chain Builder [(fn_id, ''a''), (fn_class, ''b''), (fn_id, ''c'')] init_world) = Inl DuplicateError"
  by code_simp

text \<open>
  C6. For every fragment sequence that respects the canonical order and the cardinality
  rule (and has a first fragment, with which the facade creates the compound), the chain of
  calls succeeds and \<open>stringify\<close> of the resulting compound is the concatenation, in
  append order and with no separators, of each fragment's prefix (none for element,
  \<open>#\<close> for id, \<open>.\<close> for class, \<open>[\<close> for attribute, \<open>:\<close> for pseudoClass,
  \<open>::\<close> for pseudoElement), its text, and its suffix (\<open>]\<close> for attribute).
\<close>

theorem C6_stringify_is_concatenation:
  assumes "fs \<noteq> []" and "spec_valid fs"
  shows "fst (and_then (chain Builder fs) stringify w) = Inr (spec_render fs)"
proof -
  obtain k v gs where fs: "fs = (k, v) # gs"
    using assms(1) by (cases fs) auto
  show ?thesis
    using chain_Builder_stringify [of k v gs w] assms(2) unfolding fs by simp
qed

theorem C6_witness:
  "[(fn_element, ''a''), (fn_id, ''x''), (fn_class, ''c''), (fn_class, ''d''), (fn_attr, ''href''),
    (fn_pseudoClass, ''focus''), (fn_pseudoClass, ''hover''), (fn_pseudoElement, ''after'')] \<noteq> []
   \<and> spec_valid [(fn_element, ''a''), (fn_id, ''x''), (fn_class, ''c''), (fn_class, ''d''),
                 (fn_attr, ''href''), (fn_pseudoClass, ''focus''), (fn_pseudoClass, ''hover''),
                 (fn_pseudoElement, ''after'')]
   \<and> fst (and_then (chain Builder
            [(fn_element, ''a''), (fn_id, ''x''), (fn_class, ''c''), (fn_class, ''d''),
             (fn_attr, ''href''), (fn_pseudoClass, ''focus''), (fn_pseudoClass, ''hover''),
             (fn_pseudoElement, ''after'')]) stringify init_world)
       = Inr ''a#x.c.d[href]:focus:hover::after''"
  using C6_stringify_is_concatenation
    [of "[(fn_element, ''a''), (fn_id, ''x''), (fn_class, ''c''), (fn_class, ''d''),
          (fn_attr, ''href''), (fn_pseudoClass, ''focus''), (fn_pseudoClass, ''hover''),
          (fn_pseudoElement, ''after'')]" init_world]
  by (simp add: spec_valid_def)

text \<open>
  C7. Building a compound by \<open>id("main")\<close>, then \<open>class("container")\<close>, then
  \<open>class("editable")\<close>, and calling \<open>stringify\<close> on it returns exactly
  \<open>"#main.container.editable"\<close>. This holds in whatever state the facade is when the
  chain starts.
\<close>

theorem C7_id_class_class:
  "fst (and_then (chain Builder [(fn_id, ''main''), (fn_class, ''container''), (fn_class, ''editable'')])
          stringify w) = Inr ''#main.container.editable''"
proof -
  have "spec_valid [(fn_id, ''main''), (fn_class, ''container''), (fn_class, ''editable'')]"
    by (simp add: spec_valid_def)
  from chain_Builder_stringify [OF this, of w] show ?thesis by simp
qed

text \<open>
  C8 (the code at the failing input). In the freshly loaded module,
  \<open>const e = combine(element('a'), '+', element('b'))\<close> followed by two calls
  \<open>e.stringify()\<close>: the first returns \<open>"a + b"\<close>, the second throws a TypeError,
  because \<open>reduce\<close> is called with no initial value on the \<open>selectors\<close> array that
  the first call emptied.
\<close>

theorem C8_second_stringify_throws:
  "scenario_twice init_world = (Inr ''a + b'', Inl TypeError)"
  by code_simp

text \<open>
  C9. \<open>combine(a, b, c)\<close> returns the facade itself and changes the state in one way
  only: \<open>b\<close> is put at the front of the shared \<open>splitters\<close> list. Neither \<open>a\<close>
  nor \<open>c\<close> is used: any other operands give the same result and the same state. The
  order of the operands in the output is the order in which the compounds were created:
  with \<open>x\<close> created before \<open>y\<close>, \<open>combine(y, '>', x)\<close> serializes as
  \<open>"a > b"\<close>, \<open>x\<close> first.
\<close>

theorem C9_combine_ignores_operands:
  "combine3 a b c w = (Inr Builder, w\<lparr>splitters := b # splitters w\<rparr>)
   \<and> combine3 a b c w = combine3 a' b c' w
   \<and> fst (scenario_swapped init_world) = Inr ''a > b''"
proof -
  have "fst (scenario_swapped init_world) = Inr ''a > b''" by code_simp
  then show ?thesis by (simp add: combine3_def combine_def)
qed

text \<open>
  C10. In every reachable state, \<open>stringify\<close> on a compound that the builder created
  returns the compound's accumulated string and changes exactly this: the compound's
  string becomes empty and its last-kind marker \<open>null\<close>, and the facade's
  \<open>selectors\<close> list becomes empty, so that the other compounds it held, stringified or
  not, are no longer there for a later \<open>stringify\<close> of the facade. The \<open>splitters\<close>
  list, the other objects and the compound's call counters stay as they were.
\<close>

theorem C10_selector_stringify_clears_facade:
  assumes "w = run ops init_world" and "a < length (heap w)"
  shows "Selector_stringify a w =
           (Inr (str (heap w ! a)),
            w\<lparr>heap := (heap w)[a := (heap w ! a)\<lparr>str := [], last_sel := None\<rparr>], selectors := []\<rparr>)
       \<and> selectors (snd (Selector_stringify a w)) = []
       \<and> splitters (snd (Selector_stringify a w)) = splitters w"
proof -
  have p: "prototype (heap w ! a) = Some CssSelectorBuilder"
    using assms reachable_prototype by simp
  show ?thesis
    by (simp add: Selector_stringify_eq [OF assms(2) p])
qed

theorem C10_witness:
  "1 < length (heap (run [Call Builder fn_element ''a'', Call Builder fn_element ''b'',
                          Combine (Sel 0) ''+'' (Sel 1)] init_world))
   \<and> selectors (run [Call Builder fn_element ''a'', Call Builder fn_element ''b'',
                     Combine (Sel 0) ''+'' (Sel 1)] init_world) = [0, 1]
   \<and> fst (Selector_stringify 1 (run [Call Builder fn_element ''a'', Call Builder fn_element ''b'',
                          Combine (Sel 0) ''+'' (Sel 1)] init_world)) = Inr ''b''
   \<and> selectors (snd (Selector_stringify 1 (run [Call Builder fn_element ''a'', Call Builder fn_element ''b'',
                          Combine (Sel 0) ''+'' (Sel 1)] init_world))) = []
   \<and> splitters (snd (Selector_stringify 1 (run [Call Builder fn_element ''a'', Call Builder fn_element ''b'',
                          Combine (Sel 0) ''+'' (Sel 1)] init_world))) = [''+'']
   \<and> fst (stringify Builder (snd (call Builder fn_element ''c''
            (snd (Selector_stringify 1 (run [Call Builder fn_element ''a'', Call Builder fn_element ''b'',
                          Combine (Sel 0) ''+'' (Sel 1)] init_world)))))) = Inr ''c + ''"
proof -
  let ?w = "run [Call Builder fn_element ''a'', Call Builder fn_element ''b'',
                 Combine (Sel 0) ''+'' (Sel 1)] init_world"
  have h: "1 < length (heap ?w)" by code_simp
  have s: "str (heap ?w ! 1) = ''b''" "selectors ?w = [0, 1]" "splitters ?w = [''+'']"
    by code_simp+
  note t = C10_selector_stringify_clears_facade [OF refl h]
  have r1: "fst (Selector_stringify 1 ?w) = Inr ''b''"
    using t s(1) by (metis fst_conv)
  have r2: "selectors (snd (Selector_stringify 1 ?w)) = []"
    using t by blast
  have r3: "splitters (snd (Selector_stringify 1 ?w)) = [''+'']"
    using t s(3) by metis
  have r4: "fst (stringify Builder (snd (call Builder fn_element ''c''
            (snd (Selector_stringify 1 ?w))))) = Inr ''c + ''"
    by code_simp
  show ?thesis using h s(2) r1 r2 r3 r4 by blast
qed

end
